theory Spec2Isabelle
  imports
    Main
    "HOL-Library.AList"
    "HOL-Library.Char_ord"
    "HOL-Library.List_Lexorder"
    "HOL-Library.Option_ord"
begin

section \<open>Exceptions\<close>

text \<open>
  The exceptions that the two modules raise or catch. \<open>ParserError\<close> is the exception
  of \<open>dateutil.parser\<close> (a subclass of \<open>ValueError\<close>, and not of \<open>TypeError\<close>);
  \<open>ProviderError\<close> stands for whatever the client raises when a catalogue call fails.
\<close>

datatype exn = KeyError | TypeError | ValueError | ParserError | OverflowError | ProviderError

section \<open>The playlist side of the client\<close>

text \<open>
  The client object \<open>sp\<close>, as far as playlists go: the stored track ids of every
  playlist, in playlist order, and the log of the calls issued so far (oldest first).
  An item of a playlist is represented by \<open>item['track']['id']\<close>, the only part of it
  that the code reads. The provider is taken to answer every playlist call. A call that
  the client or the provider refuses (an id it does not accept, a network error) raises
  out of \<open>update_playlists\<close>, which has no handler for it; such runs are outside the
  model.
\<close>

datatype call =
    PlaylistTracks string
  | NextPage string nat
  | RemoveAllOccurrences string "string list"
  | AddItems string "string list" nat

record spotify =
  playlists :: "string \<Rightarrow> string list"
  calls :: "call list"

text \<open>
  A page of results: \<open>results['items']\<close> and \<open>results['next']\<close>, the address of the
  following page (playlist and offset) or \<open>None\<close> on the last page.
\<close>

record page =
  page_items :: "string list"
  page_next :: "(string \<times> nat) option"

text \<open>
  \<open>sp.playlist_tracks(playlist_id)\<close> is called without a \<open>limit\<close>, so a page holds
  at most the client's default. The repository pins no version of the client: the default
  is 100 items in spotipy up to 2.25 and 50 from 2.26 on. The model takes 100; what is
  shown below of the first page of a playlist of 101 tracks holds with pages of 50 as
  well, the tracks past the first page being as unread.
\<close>

definition page_limit :: nat where
  "page_limit = 100"

definition page_at :: "string \<Rightarrow> string list \<Rightarrow> nat \<Rightarrow> page" where
  "page_at pid contents offset =
     \<lparr> page_items = take page_limit (drop offset contents),
       page_next = (if offset + page_limit < length contents
                    then Some (pid, offset + page_limit) else None) \<rparr>"

definition playlist_tracks :: "spotify \<Rightarrow> string \<Rightarrow> page \<times> spotify" where
  "playlist_tracks sp pid =
     (page_at pid (playlists sp pid) 0, sp\<lparr>calls := calls sp @ [PlaylistTracks pid]\<rparr>)"

definition sp_next :: "spotify \<Rightarrow> string \<times> nat \<Rightarrow> page \<times> spotify" where
  "sp_next sp url =
     (case url of (pid, offset) \<Rightarrow>
        (page_at pid (playlists sp pid) offset,
         sp\<lparr>calls := calls sp @ [NextPage pid offset]\<rparr>))"

definition playlist_remove_all_occurrences_of_items ::
    "spotify \<Rightarrow> string \<Rightarrow> string list \<Rightarrow> spotify" where
  "playlist_remove_all_occurrences_of_items sp pid ids =
     sp\<lparr>playlists := (playlists sp)(pid := filter (\<lambda>i. i \<notin> set ids) (playlists sp pid)),
        calls := calls sp @ [RemoveAllOccurrences pid ids]\<rparr>"

text \<open>Only \<open>position=0\<close> is ever passed: the ids go to the head, in their order.\<close>

definition playlist_add_items :: "spotify \<Rightarrow> string \<Rightarrow> string list \<Rightarrow> nat \<Rightarrow> spotify" where
  "playlist_add_items sp pid ids position =
     sp\<lparr>playlists := (playlists sp)(pid :=
            take position (playlists sp pid) @ ids @ drop position (playlists sp pid)),
        calls := calls sp @ [AddItems pid ids position]\<rparr>"

section \<open>\<open>get_playlist_tracks\<close>\<close>

text \<open>
  The loop \<open>while results['next']: results = sp.next(results); tracks.extend(...)\<close>,
  with the client state threaded through.
\<close>

function paging_loop :: "spotify \<Rightarrow> page \<Rightarrow> string list \<Rightarrow> string list \<times> spotify" where
  "paging_loop sp results tracks =
     (case page_next results of
        None \<Rightarrow> (tracks, sp)
      | Some url \<Rightarrow>
          paging_loop (snd (sp_next sp url)) (fst (sp_next sp url))
            (tracks @ page_items (fst (sp_next sp url))))"
  by pat_completeness auto
termination
  by (relation "measure (\<lambda>(sp, results, tracks).
        case page_next results of
          None \<Rightarrow> 0
        | Some (pid, offset) \<Rightarrow> Suc (length (playlists sp pid) - offset))")
     (auto simp: sp_next_def page_at_def page_limit_def split: prod.splits)

declare paging_loop.simps [simp del]

definition get_playlist_tracks :: "spotify \<Rightarrow> string option \<Rightarrow> (exn + string list) \<times> spotify" where
  "get_playlist_tracks sp playlist_id =
     (case playlist_id of
        None \<Rightarrow> (Inl ValueError, sp)
      | Some pid \<Rightarrow>
          if pid = [] then (Inl ValueError, sp)
          else (case playlist_tracks sp pid of (results, sp1) \<Rightarrow>
                  (case paging_loop sp1 results (page_items results) of
                     (tracks, sp2) \<Rightarrow> (Inr tracks, sp2))))"

section \<open>\<open>update_playlists\<close>\<close>

text \<open>
  A track record is the 5-tuple \<open>(track_id, name, release_date, threads, artist_name)\<close>
  built by \<open>get_recent_track\<close>; \<open>track[0]\<close> is its id.
\<close>

type_synonym track = "string \<times> string \<times> string \<times> string option \<times> string option"

definition track_id :: "track \<Rightarrow> string" where
  "track_id t = fst t"

record config =
  rr_playlist_id :: string
  all_playlist_id :: string
  dry_run :: bool

text \<open>
  The three list comprehensions of \<open>update_playlists\<close>: the tracks to add to a
  playlist (lines 164-170) and the ids to remove from the recent releases playlist
  (lines 180-181).
\<close>

definition new_tracks :: "track list \<Rightarrow> string list \<Rightarrow> track list" where
  "new_tracks playlist_tracks_wanted existing =
     filter (\<lambda>t. track_id t \<notin> set existing) playlist_tracks_wanted"

definition old_rr_track_ids :: "string list \<Rightarrow> track list \<Rightarrow> string list" where
  "old_rr_track_ids existing rr_playlist_tracks =
     filter (\<lambda>i. i \<notin> set (map track_id rr_playlist_tracks)) existing"

text \<open>
  \<open>for i in range(0, len(new_all_tracks), 50)\<close>, each round adding the ids of
  \<open>new_all_tracks[i:i+50]\<close> at position 0.
\<close>

function add_loop :: "spotify \<Rightarrow> string \<Rightarrow> track list \<Rightarrow> nat \<Rightarrow> spotify" where
  "add_loop sp pid new_all_tracks i =
     (if i < length new_all_tracks
      then add_loop
             (playlist_add_items sp pid (map track_id (take 50 (drop i new_all_tracks))) 0)
             pid new_all_tracks (i + 50)
      else sp)"
  by pat_completeness auto
termination
  by (relation "measure (\<lambda>(sp, pid, new_all_tracks, i). length new_all_tracks - i)") auto

declare add_loop.simps [simp del]

text \<open>
  The mutating part (lines 183-204): one bulk removal if there is anything to remove, one
  addition of all the new recent tracks, then the additions to the all-tracks playlist.
\<close>

definition apply_updates ::
    "spotify \<Rightarrow> config \<Rightarrow> string list \<Rightarrow> track list \<Rightarrow> track list \<Rightarrow> spotify" where
  "apply_updates sp2 cfg old_ids new_rr_tracks new_all_tracks =
     (let sp3 = (if old_ids \<noteq> []
                 then playlist_remove_all_occurrences_of_items sp2 (rr_playlist_id cfg) old_ids
                 else sp2);
          sp4 = (if new_rr_tracks \<noteq> []
                 then playlist_add_items sp3 (rr_playlist_id cfg)
                        (map track_id new_rr_tracks) 0
                 else sp3)
      in if new_all_tracks \<noteq> []
         then add_loop sp4 (all_playlist_id cfg) new_all_tracks 0
         else sp4)"

text \<open>
  The recent releases playlist is read with one call to \<open>sp.playlist_tracks\<close> (line
  160), the all-tracks playlist with \<open>get_playlist_tracks\<close> (line 161). In a dry run
  the function returns before the ids to remove are computed.
\<close>

definition update_playlists ::
    "spotify \<Rightarrow> config \<Rightarrow> track list \<Rightarrow> track list
      \<Rightarrow> (exn + track list \<times> track list) \<times> spotify" where
  "update_playlists sp cfg rr_playlist_tracks all_playlist_tracks =
     (case playlist_tracks sp (rr_playlist_id cfg) of (rr_page, sp1) \<Rightarrow>
      (case get_playlist_tracks sp1 (Some (all_playlist_id cfg)) of
         (Inl e, sp2) \<Rightarrow> (Inl e, sp2)
       | (Inr existing_all_playlist_tracks, sp2) \<Rightarrow>
           let new_rr_tracks = new_tracks rr_playlist_tracks (page_items rr_page);
               new_all_tracks = new_tracks all_playlist_tracks existing_all_playlist_tracks
           in if dry_run cfg then (Inr (new_rr_tracks, new_all_tracks), sp2)
              else (Inr (new_rr_tracks, new_all_tracks),
                    apply_updates sp2 cfg
                      (old_rr_track_ids (page_items rr_page) rr_playlist_tracks)
                      new_rr_tracks new_all_tracks)))"

text \<open>What the log says: the id lists of the addition calls, and the mutating calls.\<close>

fun is_mutation :: "call \<Rightarrow> bool" where
  "is_mutation (PlaylistTracks pid) = False"
| "is_mutation (NextPage pid offset) = False"
| "is_mutation (RemoveAllOccurrences pid ids) = True"
| "is_mutation (AddItems pid ids position) = True"

fun addition_sizes :: "call list \<Rightarrow> nat list" where
  "addition_sizes [] = []"
| "addition_sizes (AddItems pid ids position # cs) = length ids # addition_sizes cs"
| "addition_sizes (c # cs) = addition_sizes cs"

section \<open>\<open>deduplicate_track_list\<close>\<close>

text \<open>
  The function tests \<open>len(track) < 5\<close>, so its input is modelled as Python has it: a
  tuple of any length, each field a string or \<open>None\<close>. \<open>track[1]\<close> is the name and
  \<open>track[2]\<close> the release date, a string that is compared as a string.
\<close>

type_synonym field = "string option"
type_synonym raw_track = "field list"

definition track_name :: "raw_track \<Rightarrow> field" where
  "track_name t = t ! 1"

definition track_date :: "raw_track \<Rightarrow> field" where
  "track_date t = t ! 2"

text \<open>
  The dictionary \<open>track_dict\<close> keeps insertion order, and assigning to a key that is
  present keeps the key's place: an association list under \<open>AList.update\<close>.
  Unpacking a tuple of more than five fields raises \<open>ValueError\<close>; \<open>>\<close> with
  \<open>None\<close> on either side raises \<open>TypeError\<close>.
\<close>

fun dedup_loop :: "raw_track list \<Rightarrow> (field \<times> raw_track) list \<Rightarrow> exn + (field \<times> raw_track) list" where
  "dedup_loop [] track_dict = Inr track_dict"
| "dedup_loop (t # ts) track_dict =
     (if length t < 5 then dedup_loop ts track_dict
      else if length t > 5 then Inl ValueError
      else (case map_of track_dict (track_name t) of
              None \<Rightarrow> dedup_loop ts (AList.update (track_name t) t track_dict)
            | Some kept \<Rightarrow>
                (case (track_date t, track_date kept) of
                   (Some release_date, Some kept_date) \<Rightarrow>
                     if release_date > kept_date
                     then dedup_loop ts (AList.update (track_name t) t track_dict)
                     else dedup_loop ts track_dict
                 | _ \<Rightarrow> Inl TypeError)))"

text \<open>
  \<open>unique_tracks.sort(key=lambda x: x[2])\<close> is a stable ascending sort. With two or
  more elements every key is compared at least once, so a \<open>None\<close> key raises
  \<open>TypeError\<close>.
\<close>

definition deduplicate_track_list :: "raw_track list \<Rightarrow> exn + raw_track list" where
  "deduplicate_track_list tracks =
     (case dedup_loop tracks [] of
        Inl e \<Rightarrow> Inl e
      | Inr track_dict \<Rightarrow>
          let unique_tracks = map snd track_dict
          in if 2 \<le> length unique_tracks \<and> (\<exists>t \<in> set unique_tracks. track_date t = None)
             then Inl TypeError
             else Inr (sort_key track_date unique_tracks))"

section \<open>Calendar dates\<close>

text \<open>
  \<open>datetime.date\<close>: year, month and day, ordered by the proleptic Gregorian ordinal
  (\<open>date.toordinal()\<close>, 1 for 0001-01-01), which is how the standard library computes
  \<open>today - timedelta(days=n)\<close>. The results of date arithmetic are only ever compared
  here, so they are kept as ordinals.
\<close>

datatype date = Date (year: int) (month: int) (day: int)

definition is_leap :: "int \<Rightarrow> bool" where
  "is_leap y = (y mod 4 = 0 \<and> (y mod 100 \<noteq> 0 \<or> y mod 400 = 0))"

definition days_in_month :: "int \<Rightarrow> int \<Rightarrow> int" where
  "days_in_month y m =
     (if m = 2 then (if is_leap y then 29 else 28)
      else if m = 4 \<or> m = 6 \<or> m = 9 \<or> m = 11 then 30 else 31)"

definition days_before_year :: "int \<Rightarrow> int" where
  "days_before_year y = (y - 1) * 365 + (y - 1) div 4 - (y - 1) div 100 + (y - 1) div 400"

definition days_before_month :: "int \<Rightarrow> int \<Rightarrow> int" where
  "days_before_month y m =
     [0, 0, 31, 59, 90, 120, 151, 181, 212, 243, 273, 304, 334] ! nat m
       + (if m > 2 \<and> is_leap y then 1 else 0)"

definition valid_date :: "date \<Rightarrow> bool" where
  "valid_date d =
     (1 \<le> year d \<and> year d \<le> 9999 \<and> 1 \<le> month d \<and> month d \<le> 12
      \<and> 1 \<le> day d \<and> day d \<le> days_in_month (year d) (month d))"

definition toordinal :: "date \<Rightarrow> int" where
  "toordinal d = days_before_year (year d) + days_before_month (year d) (month d) + day d"

text \<open>
  \<open>today - datetime.timedelta(days=n)\<close>: \<open>timedelta\<close> refuses more than 999999999
  days, and the difference must lie between \<open>date.min\<close> and \<open>date.max\<close>
  (ordinals 1 and 3652059).
\<close>

definition minus_days :: "date \<Rightarrow> int \<Rightarrow> exn + int" where
  "minus_days today n =
     (if \<bar>n\<bar> > 999999999 then Inl OverflowError
      else if 1 \<le> toordinal today - n \<and> toordinal today - n \<le> 3652059
           then Inr (toordinal today - n)
           else Inl OverflowError)"

section \<open>Reading the provider's release dates\<close>

text \<open>
  \<open>dateutil.parser.parse\<close> is an imported library, so the fetcher below takes the
  parser as an argument: a function of today's date and the string, answering a date or
  raising. The function \<open>dateutil_parse\<close> is the library's answer (version 2.9) on
  the three shapes the provider sends, \<open>YYYY\<close>, \<open>YYYY-MM\<close> and \<open>YYYY-MM-DD\<close>,
  and on the empty string. The call at line 57 passes no \<open>default\<close>, so the fields
  absent from the string are those of today, and a day past the end of the resulting
  month is moved to its last day. A string that holds no date raises \<open>ParserError\<close>;
  the library reads many more notations than the three shapes, and on those this function
  is not a model of it.
\<close>

type_synonym parser = "date \<Rightarrow> string \<Rightarrow> exn + date"

definition is_digit :: "char \<Rightarrow> bool" where
  "is_digit c = (CHR ''0'' \<le> c \<and> c \<le> CHR ''9'')"

definition int_of_digits :: "string \<Rightarrow> int" where
  "int_of_digits cs = foldl (\<lambda>a c. 10 * a + (int (of_char c) - 48)) 0 cs"

definition date_fields :: "string \<Rightarrow> (int \<times> int option \<times> int option) option" where
  "date_fields s =
     (if length s = 4 \<and> list_all is_digit s
      then Some (int_of_digits s, None, None)
      else if length s = 7 \<and> list_all is_digit (take 4 s) \<and> s ! 4 = CHR ''-''
              \<and> list_all is_digit (drop 5 s)
      then Some (int_of_digits (take 4 s), Some (int_of_digits (drop 5 s)), None)
      else if length s = 10 \<and> list_all is_digit (take 4 s) \<and> s ! 4 = CHR ''-''
              \<and> list_all is_digit (take 2 (drop 5 s)) \<and> s ! 7 = CHR ''-''
              \<and> list_all is_digit (drop 8 s)
      then Some (int_of_digits (take 4 s), Some (int_of_digits (take 2 (drop 5 s))),
                 Some (int_of_digits (drop 8 s)))
      else None)"

text \<open>
  \<open>parserinfo.convertyear\<close>: a year below 100 that was not written with its century
  is moved into the hundred years around the current year.
\<close>

definition convertyear :: "date \<Rightarrow> int \<Rightarrow> int" where
  "convertyear today y =
     (if y < 100
      then (let y' = y + (year today div 100) * 100
            in if y' \<ge> year today + 50 then y' - 100
               else if y' < year today - 50 then y' + 100
               else y')
      else y)"

text \<open>
  \<open>parser._build_naive\<close>: the fields read replace those of the default, today; when
  no day was read, a default day past the end of the month becomes its last day. A date
  that does not exist raises \<open>ValueError\<close>, which \<open>parse\<close> turns into
  \<open>ParserError\<close>.
\<close>

definition build_naive :: "date \<Rightarrow> int option \<Rightarrow> int option \<Rightarrow> int option \<Rightarrow> exn + date" where
  "build_naive today yo mo dd =
     (let y = (case yo of None \<Rightarrow> year today | Some y' \<Rightarrow> y');
          m = (case mo of None \<Rightarrow> month today | Some m' \<Rightarrow> m');
          d = (case dd of
                 None \<Rightarrow> (if 1 \<le> m \<and> m \<le> 12 \<and> day today > days_in_month y m
                          then days_in_month y m else day today)
               | Some d' \<Rightarrow> d')
      in if valid_date (Date y m d) then Inr (Date y m d) else Inl ParserError)"

text \<open>
  How the numbers read are told apart (\<open>_ymd.append\<close> and \<open>_ymd.resolve_ymd\<close>).
  A number alone is a year when above 100, a year without its century when above 31, and
  a day otherwise. Of two numbers, the first, written with four digits, is the year when
  above 31; otherwise it is the month, and the second is the year when above 31 and the
  day if not. Of three numbers the first, written with four digits, is the year.
\<close>

definition dateutil_parse :: parser where
  "dateutil_parse today s =
     (case date_fields s of
        None \<Rightarrow> Inl ParserError
      | Some (y, None, dd) \<Rightarrow>
          if y > 100 then build_naive today (Some y) None None
          else if y > 31 then build_naive today (Some (convertyear today y)) None None
          else build_naive today None None (Some y)
      | Some (y, Some m, None) \<Rightarrow>
          if y > 31 then build_naive today (Some y) (Some m) None
          else if m > 31 then build_naive today (Some m) (Some y) None
          else build_naive today None (Some y) (Some m)
      | Some (y, Some m, Some d) \<Rightarrow> build_naive today (Some y) (Some m) (Some d))"

section \<open>\<open>get_recent_track\<close>\<close>

text \<open>
  The catalogue side of the client, which the fetcher only reads: the albums of an
  artist and the tracks of an album (each an id and a name), or the exception raised.
  \<open>release_date\<close> is the JSON value of that key, \<open>None\<close> for \<open>null\<close>.
\<close>

record album =
  album_id :: string
  release_date :: "string option"

record catalog =
  artist_albums :: "string \<Rightarrow> exn + album list"
  album_tracks :: "string \<Rightarrow> exn + (string \<times> string) list"

record artist =
  spotify_id :: "string option"
  threads :: "string option"
  artist_name :: "string option"

text \<open>The two tests of lines 63 and 88, in the order of the \<open>if\<close>/\<open>elif\<close>.\<close>

datatype window = Recent | YearToDate | Ignored

definition classify :: "int \<Rightarrow> int \<Rightarrow> int \<Rightarrow> int \<Rightarrow> window" where
  "classify day_n_days_ago beginning_of_year today d =
     (if day_n_days_ago \<le> d \<and> d \<le> today then Recent
      else if beginning_of_year \<le> d \<and> d \<le> day_n_days_ago then YearToDate
      else Ignored)"

definition track_info :: "artist \<Rightarrow> string \<Rightarrow> string \<times> string \<Rightarrow> track" where
  "track_info a date_string tr =
     (fst tr, snd tr, date_string, threads a, artist_name a)"

text \<open>
  The loop over the tracks of a recent album (lines 69-83): the first track met while
  \<open>latest_track\<close> is still \<open>None\<close> becomes the latest track.
\<close>

fun recent_track_loop ::
    "artist \<Rightarrow> string \<Rightarrow> (string \<times> string) list \<Rightarrow> track list \<times> track option
      \<Rightarrow> track list \<times> track option" where
  "recent_track_loop a ds [] st = st"
| "recent_track_loop a ds (tr # trs) (all_tracks, latest_track) =
     recent_track_loop a ds trs
       (all_tracks @ [track_info a ds tr],
        (case latest_track of None \<Rightarrow> Some (track_info a ds tr) | Some l \<Rightarrow> Some l))"

text \<open>
  The loop over the albums (lines 54-102). Only \<open>TypeError\<close> is caught around the
  parser, which is what a \<open>release_date\<close> that is not a string raises; a failing
  \<open>album_tracks\<close> is caught whatever it raises.
\<close>

fun album_loop ::
    "parser \<Rightarrow> catalog \<Rightarrow> date \<Rightarrow> artist \<Rightarrow> int \<Rightarrow> int \<Rightarrow> album list
      \<Rightarrow> track list \<times> track option \<Rightarrow> exn + track list \<times> track option" where
  "album_loop parse sp today a day_n_days_ago beginning_of_year [] st = Inr st"
| "album_loop parse sp today a day_n_days_ago beginning_of_year (al # als) st =
     (case release_date al of
        None \<Rightarrow> album_loop parse sp today a day_n_days_ago beginning_of_year als st
      | Some ds \<Rightarrow>
          (case parse today ds of
             Inl e \<Rightarrow>
               if e = TypeError
               then album_loop parse sp today a day_n_days_ago beginning_of_year als st
               else Inl e
           | Inr d \<Rightarrow>
               (case classify day_n_days_ago beginning_of_year (toordinal today) (toordinal d) of
                  Recent \<Rightarrow>
                    (case album_tracks sp (album_id al) of
                       Inl e \<Rightarrow>
                         album_loop parse sp today a day_n_days_ago beginning_of_year als st
                     | Inr tracks \<Rightarrow>
                         album_loop parse sp today a day_n_days_ago beginning_of_year als
                           (recent_track_loop a ds tracks st))
                | YearToDate \<Rightarrow>
                    (case album_tracks sp (album_id al) of
                       Inl e \<Rightarrow>
                         album_loop parse sp today a day_n_days_ago beginning_of_year als st
                     | Inr tracks \<Rightarrow>
                         album_loop parse sp today a day_n_days_ago beginning_of_year als
                           (fst st @ map (track_info a ds) tracks, snd st))
                | Ignored \<Rightarrow>
                    album_loop parse sp today a day_n_days_ago beginning_of_year als st)))"

definition track_release_date :: "track \<Rightarrow> string" where
  "track_release_date t = fst (snd (snd t))"

text \<open>
  \<open>all_tracks.sort(key=lambda x: x[2], reverse=True)\<close>: a stable sort, which with
  \<open>reverse=True\<close> reverses the list, sorts it in ascending order and reverses again.
\<close>

definition sort_newest_first :: "track list \<Rightarrow> track list" where
  "sort_newest_first ts = rev (sort_key track_release_date (rev ts))"

definition get_recent_track ::
    "parser \<Rightarrow> catalog \<Rightarrow> date \<Rightarrow> artist \<Rightarrow> int \<Rightarrow> exn + track list \<times> track option" where
  "get_recent_track parse sp today a n_days_ago =
     (case spotify_id a of
        None \<Rightarrow> Inl KeyError
      | Some aid \<Rightarrow>
          (case artist_albums sp aid of
             Inl e \<Rightarrow> Inr ([], None)
           | Inr albums \<Rightarrow>
               (case minus_days today n_days_ago of
                  Inl e \<Rightarrow> Inl e
                | Inr day_n_days_ago \<Rightarrow>
                    (case album_loop parse sp today a day_n_days_ago
                            (toordinal (Date (year today) 1 1)) albums ([], None) of
                       Inl e \<Rightarrow> Inl e
                     | Inr (all_tracks, latest_track) \<Rightarrow>
                         Inr (sort_newest_first all_tracks, latest_track)))))"

section \<open>The windows, as the specification words them\<close>




section \<open>What the deduplication loop keeps\<close>

text \<open>
  Record \<open>r\<close> is, among the records of five fields of \<open>tracks\<close> that bear its title,
  the first one whose date string is the greatest: it occurs in \<open>tracks\<close>, every such
  record before it has a strictly smaller date string, and every such record after it has
  a date string that is not greater. The order is that of line 151, the order of strings;
  it is the order of the dates when the strings are of one precision, and not otherwise.
\<close>

definition first_greatest_in :: "raw_track list \<Rightarrow> raw_track \<Rightarrow> bool" where
  "first_greatest_in tracks r =
     (\<exists>before after. tracks = before @ r # after
        \<and> (\<forall>u \<in> set before. length u = 5 \<and> track_name u = track_name r
              \<longrightarrow> track_date u < track_date r)
        \<and> (\<forall>u \<in> set after. length u = 5 \<and> track_name u = track_name r
              \<longrightarrow> track_date u \<le> track_date r))"

text \<open>
  What holds of \<open>track_dict\<close> once the records \<open>seen\<close> have been processed: its
  keys are distinct, every value is a record of five fields stored under its own title
  and is the first record of that title with the greatest date string, and every title
  met has an entry.
\<close>

definition dict_inv :: "raw_track list \<Rightarrow> (field \<times> raw_track) list \<Rightarrow> bool" where
  "dict_inv seen d \<longleftrightarrow>
     distinct (map fst d)
     \<and> (\<forall>k v. map_of d k = Some v \<longrightarrow>
           track_name v = k \<and> length v = 5 \<and> track_date v \<noteq> None \<and> first_greatest_in seen v)
     \<and> (\<forall>t \<in> set seen. length t = 5 \<longrightarrow> map_of d (track_name t) \<noteq> None)"

section \<open>Paging through a playlist\<close>

lemma page_at_rest:
  "page_items (page_at pid xs off) @ drop (off + page_limit) xs = drop off xs"
proof -
  have "take page_limit (drop off xs) @ drop page_limit (drop off xs) = drop off xs"
    by (rule append_take_drop_id)
  then show ?thesis by (simp add: page_at_def add.commute)
qed

text \<open>Started on any page of a playlist, the loop appends all that follows the page.\<close>

lemma paging_loop_tracks:
  "page_next results = (if off + page_limit < length (playlists sp pid)
                        then Some (pid, off + page_limit) else None)
   \<Longrightarrow> fst (paging_loop sp results acc) = acc @ drop (off + page_limit) (playlists sp pid)"
proof (induction sp results acc arbitrary: off rule: paging_loop.induct)
  case (1 sp results tracks)
  show ?case
  proof (cases "off + page_limit < length (playlists sp pid)")
    case False
    with "1.prems" show ?thesis by (subst paging_loop.simps) simp
  next
    case True
    let ?url = "(pid, off + page_limit)"
    have nx: "page_next results = Some ?url" using True "1.prems" by simp
    have sp': "playlists (snd (sp_next sp ?url)) = playlists sp" by (simp add: sp_next_def)
    have pg: "fst (sp_next sp ?url) = page_at pid (playlists sp pid) (off + page_limit)"
      by (simp add: sp_next_def)
    have "fst (paging_loop (snd (sp_next sp ?url)) (fst (sp_next sp ?url))
            (tracks @ page_items (fst (sp_next sp ?url))))
          = (tracks @ page_items (fst (sp_next sp ?url)))
              @ drop ((off + page_limit) + page_limit) (playlists (snd (sp_next sp ?url)) pid)"
      by (rule "1.IH"[OF nx]) (simp add: pg sp' page_at_def)
    also have "\<dots> = tracks @ drop (off + page_limit) (playlists sp pid)"
      by (simp only: sp' pg append_assoc page_at_rest)
    finally show ?thesis using nx by (subst paging_loop.simps) simp
  qed
qed

lemma paging_loop_playlists: "playlists (snd (paging_loop sp results acc)) = playlists sp"
proof (induction sp results acc rule: paging_loop.induct)
  case (1 sp results tracks)
  show ?case
  proof (cases "page_next results")
    case None
    then show ?thesis by (subst paging_loop.simps) simp
  next
    case (Some url)
    have "playlists (snd (sp_next sp url)) = playlists sp"
      by (cases url) (simp add: sp_next_def)
    with "1.IH"[OF Some] Some show ?thesis by (subst paging_loop.simps) simp
  qed
qed

lemma paging_loop_calls:
  "\<exists>cs. calls (snd (paging_loop sp results acc)) = calls sp @ cs
        \<and> (\<forall>c \<in> set cs. \<not> is_mutation c)"
proof (induction sp results acc rule: paging_loop.induct)
  case (1 sp results tracks)
  show ?case
  proof (cases "page_next results")
    case None
    then show ?thesis by (subst paging_loop.simps) simp
  next
    case (Some url)
    obtain pid off where url: "url = (pid, off)" by (cases url)
    have c: "calls (snd (sp_next sp url)) = calls sp @ [NextPage pid off]"
      by (simp add: sp_next_def url)
    from "1.IH"[OF Some] obtain cs where
      cs: "calls (snd (paging_loop (snd (sp_next sp url)) (fst (sp_next sp url))
             (tracks @ page_items (fst (sp_next sp url))))) = calls (snd (sp_next sp url)) @ cs"
      and nm: "\<forall>c \<in> set cs. \<not> is_mutation c" by blast
    have "calls (snd (paging_loop sp results tracks)) = calls sp @ (NextPage pid off # cs)"
      using Some cs c by (subst paging_loop.simps) simp
    moreover have "\<forall>c \<in> set (NextPage pid off # cs). \<not> is_mutation c" using nm by simp
    ultimately show ?thesis by blast
  qed
qed

text \<open>With a playlist id that is not empty, the fetch returns the whole playlist.\<close>

lemma get_playlist_tracks_all:
  "pid \<noteq> [] \<Longrightarrow> fst (get_playlist_tracks sp (Some pid)) = Inr (playlists sp pid)"
proof -
  assume ne: "pid \<noteq> []"
  let ?sp1 = "snd (playlist_tracks sp pid)"
  let ?r = "fst (playlist_tracks sp pid)"
  have nx: "page_next ?r = (if 0 + page_limit < length (playlists ?sp1 pid)
                            then Some (pid, 0 + page_limit) else None)"
    by (simp add: playlist_tracks_def page_at_def)
  have "fst (paging_loop ?sp1 ?r (page_items ?r))
        = page_items ?r @ drop (0 + page_limit) (playlists ?sp1 pid)"
    by (rule paging_loop_tracks[OF nx])
  also have "\<dots> = playlists sp pid"
    using page_at_rest[of pid "playlists sp pid" 0] by (simp add: playlist_tracks_def)
  finally show ?thesis using ne
    by (simp add: get_playlist_tracks_def case_prod_beta)
qed

section \<open>What \<open>update_playlists\<close> reads and returns\<close>

lemma get_playlist_tracks_snd:
  "pid \<noteq> [] \<Longrightarrow> playlists (snd (get_playlist_tracks sp (Some pid))) = playlists sp
     \<and> (\<exists>cs. calls (snd (get_playlist_tracks sp (Some pid))) = calls sp @ cs
             \<and> (\<forall>c \<in> set cs. \<not> is_mutation c))"
proof -
  assume ne: "pid \<noteq> []"
  let ?sp1 = "snd (playlist_tracks sp pid)"
  let ?r = "fst (playlist_tracks sp pid)"
  have s: "snd (get_playlist_tracks sp (Some pid)) = snd (paging_loop ?sp1 ?r (page_items ?r))"
    using ne by (simp add: get_playlist_tracks_def case_prod_beta)
  obtain cs where cs: "calls (snd (paging_loop ?sp1 ?r (page_items ?r))) = calls ?sp1 @ cs"
    and nm: "\<forall>c \<in> set cs. \<not> is_mutation c"
    using paging_loop_calls by blast
  have "calls (snd (get_playlist_tracks sp (Some pid))) = calls sp @ (PlaylistTracks pid # cs)"
    using s cs by (simp add: playlist_tracks_def)
  moreover have "\<forall>c \<in> set (PlaylistTracks pid # cs). \<not> is_mutation c" using nm by simp
  moreover have "playlists (snd (get_playlist_tracks sp (Some pid))) = playlists sp"
    using s by (simp add: paging_loop_playlists playlist_tracks_def)
  ultimately show ?thesis by blast
qed

text \<open>
  The value returned, and the client after the two reads: the recent releases playlist
  contributes the first page only, the all-tracks playlist all of its tracks.
\<close>

lemma update_playlists_unfold:
  assumes "all_playlist_id cfg \<noteq> []"
  shows "update_playlists sp cfg rr al
    = (Inr (new_tracks rr (take page_limit (playlists sp (rr_playlist_id cfg))),
            new_tracks al (playlists sp (all_playlist_id cfg))),
       if dry_run cfg
       then snd (get_playlist_tracks (snd (playlist_tracks sp (rr_playlist_id cfg)))
                   (Some (all_playlist_id cfg)))
       else apply_updates
              (snd (get_playlist_tracks (snd (playlist_tracks sp (rr_playlist_id cfg)))
                      (Some (all_playlist_id cfg))))
              cfg
              (old_rr_track_ids (take page_limit (playlists sp (rr_playlist_id cfg))) rr)
              (new_tracks rr (take page_limit (playlists sp (rr_playlist_id cfg))))
              (new_tracks al (playlists sp (all_playlist_id cfg))))"
proof -
  obtain pg sp1 where p: "playlist_tracks sp (rr_playlist_id cfg) = (pg, sp1)"
    by (cases "playlist_tracks sp (rr_playlist_id cfg)")
  have pg: "page_items pg = take page_limit (playlists sp (rr_playlist_id cfg))"
    and sp1: "playlists sp1 = playlists sp"
    using p by (auto simp: playlist_tracks_def page_at_def)
  obtain r sp2 where g: "get_playlist_tracks sp1 (Some (all_playlist_id cfg)) = (r, sp2)"
    by (cases "get_playlist_tracks sp1 (Some (all_playlist_id cfg))")
  have r: "r = Inr (playlists sp (all_playlist_id cfg))"
    using get_playlist_tracks_all[OF assms, of sp1] g sp1 by simp
  show ?thesis
    by (simp add: update_playlists_def p g r pg Let_def)
qed


lemma reads_log:
  "pid \<noteq> [] \<Longrightarrow>
   playlists (snd (get_playlist_tracks (snd (playlist_tracks sp rr_id)) (Some pid)))
     = playlists sp
   \<and> (\<exists>cs. calls (snd (get_playlist_tracks (snd (playlist_tracks sp rr_id)) (Some pid)))
              = calls sp @ cs \<and> (\<forall>c \<in> set cs. \<not> is_mutation c))"
proof -
  assume ne: "pid \<noteq> []"
  let ?sp1 = "snd (playlist_tracks sp rr_id)"
  from get_playlist_tracks_snd[OF ne, of ?sp1] obtain cs where
    pl: "playlists (snd (get_playlist_tracks ?sp1 (Some pid))) = playlists ?sp1"
    and cs: "calls (snd (get_playlist_tracks ?sp1 (Some pid))) = calls ?sp1 @ cs"
    and nm: "\<forall>c \<in> set cs. \<not> is_mutation c" by blast
  have "calls (snd (get_playlist_tracks ?sp1 (Some pid)))
          = calls sp @ (PlaylistTracks rr_id # cs)"
    using cs by (simp add: playlist_tracks_def)
  moreover have "\<forall>c \<in> set (PlaylistTracks rr_id # cs). \<not> is_mutation c" using nm by simp
  moreover have "playlists (snd (get_playlist_tracks ?sp1 (Some pid))) = playlists sp"
    using pl by (simp add: playlist_tracks_def)
  ultimately show ?thesis by blast
qed

text \<open>
  With nothing wanted in either playlist, a run that is not a dry run removes from the
  recent releases playlist every id that stands on its first page.
\<close>

lemma update_playlists_nothing_wanted:
  assumes "all_playlist_id cfg \<noteq> []" and "\<not> dry_run cfg"
  shows "playlists (snd (update_playlists sp cfg [] []))
    = (playlists sp)(rr_playlist_id cfg :=
         filter (\<lambda>i. i \<notin> set (take page_limit (playlists sp (rr_playlist_id cfg))))
           (playlists sp (rr_playlist_id cfg)))"
proof -
  let ?sp2 = "snd (get_playlist_tracks (snd (playlist_tracks sp (rr_playlist_id cfg)))
                     (Some (all_playlist_id cfg)))"
  have pl: "playlists ?sp2 = playlists sp"
    using reads_log[OF assms(1), of sp "rr_playlist_id cfg"] by simp
  show ?thesis
  proof (cases "take page_limit (playlists sp (rr_playlist_id cfg)) = []")
    case True
    then have e: "playlists sp (rr_playlist_id cfg) = []" by (simp add: page_limit_def)
    have "(playlists sp)(rr_playlist_id cfg := []) = playlists sp"
      using e by (metis fun_upd_triv)
    then show ?thesis using assms pl e
      by (simp add: update_playlists_unfold apply_updates_def new_tracks_def
            old_rr_track_ids_def)
  next
    case False
    then show ?thesis using assms pl
      by (simp add: update_playlists_unfold apply_updates_def new_tracks_def
            old_rr_track_ids_def playlist_remove_all_occurrences_of_items_def)
  qed
qed

text \<open>
  The additions to the all-tracks playlist: every call of the loop of lines 198-203
  carries at most 50 ids, at position 0.
\<close>

lemma add_loop_calls:
  "\<exists>cs. calls (add_loop sp pid new i) = calls sp @ cs
        \<and> (\<forall>c \<in> set cs. \<exists>ids. c = AddItems pid ids 0 \<and> length ids \<le> 50)"
proof (induction sp pid new i rule: add_loop.induct)
  case (1 sp pid new i)
  show ?case
  proof (cases "i < length new")
    case False
    then show ?thesis by (subst add_loop.simps) simp
  next
    case True
    let ?ids = "map track_id (take 50 (drop i new))"
    from "1.IH"[OF True] obtain cs where
      cs: "calls (add_loop (playlist_add_items sp pid ?ids 0) pid new (i + 50))
             = calls (playlist_add_items sp pid ?ids 0) @ cs"
      and le: "\<forall>c \<in> set cs. \<exists>ids. c = AddItems pid ids 0 \<and> length ids \<le> 50" by blast
    have "calls (add_loop sp pid new i) = calls sp @ (AddItems pid ?ids 0 # cs)"
      using True cs by (subst add_loop.simps) (simp add: playlist_add_items_def)
    moreover have "\<forall>c \<in> set (AddItems pid ?ids 0 # cs).
                     \<exists>ids. c = AddItems pid ids 0 \<and> length ids \<le> 50"
      using le by simp
    ultimately show ?thesis by blast
  qed
qed

text \<open>
  What the mutating part leaves in the two playlists, when they are two playlists: the
  new recent tracks in front of what was not removed, and the new tracks somewhere in the
  all-tracks playlist.
\<close>

lemma add_loop_other:
  "q \<noteq> pid \<Longrightarrow> playlists (add_loop sp pid new i) q = playlists sp q"
proof (induction sp pid new i rule: add_loop.induct)
  case (1 sp pid new i)
  show ?case
  proof (cases "i < length new")
    case False
    then show ?thesis by (subst add_loop.simps) simp
  next
    case True
    from "1.IH"[OF True "1.prems"] True "1.prems" show ?thesis
      by (subst add_loop.simps) (simp add: playlist_add_items_def)
  qed
qed

lemma add_loop_set:
  "set (playlists (add_loop sp pid new i) pid)
     = set (playlists sp pid) \<union> track_id ` set (drop i new)"
proof (induction sp pid new i rule: add_loop.induct)
  case (1 sp pid new i)
  show ?case
  proof (cases "i < length new")
    case False
    then show ?thesis by (subst add_loop.simps) simp
  next
    case True
    have "set (take 50 (drop i new)) \<union> set (drop 50 (drop i new)) = set (drop i new)"
      by (metis append_take_drop_id set_append)
    then have u: "set (take 50 (drop i new)) \<union> set (drop (i + 50) new) = set (drop i new)"
      by (simp add: add.commute)
    have "set (playlists (add_loop sp pid new i) pid)
        = track_id ` set (take 50 (drop i new)) \<union> set (playlists sp pid)
            \<union> track_id ` set (drop (i + 50) new)"
      using "1.IH"[OF True] True
      by (subst add_loop.simps) (simp add: playlist_add_items_def)
    also have "\<dots> = set (playlists sp pid)
        \<union> track_id ` (set (take 50 (drop i new)) \<union> set (drop (i + 50) new))"
      by blast
    finally show ?thesis by (simp only: u)
  qed
qed

lemma apply_updates_rr:
  assumes "rr_playlist_id cfg \<noteq> all_playlist_id cfg"
  shows "playlists (apply_updates sp2 cfg old_ids new_rr new_all) (rr_playlist_id cfg)
     = map track_id new_rr @ filter (\<lambda>i. i \<notin> set old_ids) (playlists sp2 (rr_playlist_id cfg))"
  using assms
  by (auto simp: apply_updates_def Let_def add_loop_other
        playlist_add_items_def playlist_remove_all_occurrences_of_items_def)

lemma apply_updates_all:
  assumes "rr_playlist_id cfg \<noteq> all_playlist_id cfg"
  shows "set (playlists (apply_updates sp2 cfg old_ids new_rr new_all) (all_playlist_id cfg))
     = set (playlists sp2 (all_playlist_id cfg)) \<union> track_id ` set new_all"
  using assms
  by (auto simp: apply_updates_def Let_def add_loop_set
        playlist_add_items_def playlist_remove_all_occurrences_of_items_def)

text \<open>
  When the recent releases playlist fits on one page before and after a run, a second run
  with the same wanted tracks has nothing to add and nothing to remove.
\<close>

lemma second_run_empty_when_recent_fits:
  assumes ne: "all_playlist_id cfg \<noteq> []" and wet: "\<not> dry_run cfg"
    and diff: "rr_playlist_id cfg \<noteq> all_playlist_id cfg"
    and fit1: "length (playlists sp (rr_playlist_id cfg)) \<le> page_limit"
    and fit2: "length (playlists (snd (update_playlists sp cfg rr al)) (rr_playlist_id cfg))
                 \<le> page_limit"
  shows "fst (update_playlists (snd (update_playlists sp cfg rr al)) cfg rr al) = Inr ([], [])
     \<and> old_rr_track_ids
          (take page_limit
             (playlists (snd (update_playlists sp cfg rr al)) (rr_playlist_id cfg))) rr = []"
proof -
  let ?rr = "rr_playlist_id cfg" and ?all = "all_playlist_id cfg"
  let ?sp2 = "snd (get_playlist_tracks (snd (playlist_tracks sp ?rr)) (Some ?all))"
  let ?ex = "playlists sp ?rr"
  let ?sp' = "snd (update_playlists sp cfg rr al)"
  have pl: "playlists ?sp2 = playlists sp" using reads_log[OF ne, of sp ?rr] by simp
  have t1: "take page_limit ?ex = ?ex" using fit1 by simp
  have sp': "?sp' = apply_updates ?sp2 cfg (old_rr_track_ids ?ex rr) (new_tracks rr ?ex)
                      (new_tracks al (playlists sp ?all))"
    using wet by (simp add: update_playlists_unfold[OF ne] t1)
  have rr': "playlists ?sp' ?rr
      = map track_id (new_tracks rr ?ex)
        @ filter (\<lambda>i. i \<notin> set (old_rr_track_ids ?ex rr)) ?ex"
    by (simp add: sp' apply_updates_rr[OF diff] pl)
  have all': "set (playlists ?sp' ?all)
      = set (playlists sp ?all) \<union> track_id ` set (new_tracks al (playlists sp ?all))"
    by (simp add: sp' apply_updates_all[OF diff] pl)
  have srr: "set (playlists ?sp' ?rr) = track_id ` set rr"
    unfolding rr' by (auto simp: new_tracks_def old_rr_track_ids_def)
  have t2: "take page_limit (playlists ?sp' ?rr) = playlists ?sp' ?rr" using fit2 by simp
  have a: "new_tracks rr (playlists ?sp' ?rr) = []"
    by (auto simp: new_tracks_def srr filter_empty_conv)
  have b: "new_tracks al (playlists ?sp' ?all) = []"
    unfolding new_tracks_def filter_empty_conv all' by (auto simp: new_tracks_def)
  have c: "old_rr_track_ids (playlists ?sp' ?rr) rr = []"
    unfolding old_rr_track_ids_def filter_empty_conv using srr by auto
  show ?thesis
    by (simp add: update_playlists_unfold[OF ne, of ?sp'] t2 a b c)
qed

section \<open>Claims on \<open>update_playlists\<close>\<close>

text \<open>
  Claim C1: no addition call carries more than 50 track ids. The additions to the
  all-tracks playlist are split (\<open>add_loop_calls\<close>), the addition to the recent
  releases playlist at line 191 is not. Here both playlists are empty and 51 tracks are
  wanted in the recent releases playlist: the run issues one addition, of 51 ids.
\<close>

theorem recent_addition_not_split:
  "addition_sizes (calls (snd (update_playlists
      \<lparr>playlists = (\<lambda>p. []), calls = []\<rparr>
      \<lparr>rr_playlist_id = ''rr'', all_playlist_id = ''all'', dry_run = False\<rparr>
      (map (\<lambda>k. (replicate (Suc k) CHR ''t'', ''song'', ''2024-06-10'', None, None)) [0..<51])
      []))) = [51]"
  by (simp add: update_playlists_unfold new_tracks_def old_rr_track_ids_def apply_updates_def
        playlist_tracks_def page_at_def page_limit_def get_playlist_tracks_def
        paging_loop.simps playlist_add_items_def)

text \<open>
  Claim C2: the contents of every target playlist are read through all pages before the
  difference is computed. The all-tracks playlist is (\<open>get_playlist_tracks_all\<close>); the
  recent releases playlist is read with a single call. Here it holds 101 tracks, the last
  of them \<open>x\<close>, and \<open>x\<close> is the one track wanted: the run reports \<open>x\<close> as a
  track to add, although it is in the playlist.
\<close>

theorem recent_playlist_first_page_only:
  "''x'' \<in> set (playlists
       \<lparr>playlists = (\<lambda>p. if p = ''rr''
            then map (\<lambda>k. replicate (Suc k) CHR ''t'') [0..<100] @ [''x''] else []),
        calls = []\<rparr> ''rr'')
   \<and> fst (update_playlists
       \<lparr>playlists = (\<lambda>p. if p = ''rr''
            then map (\<lambda>k. replicate (Suc k) CHR ''t'') [0..<100] @ [''x''] else []),
        calls = []\<rparr>
       \<lparr>rr_playlist_id = ''rr'', all_playlist_id = ''all'', dry_run = True\<rparr>
       [(''x'', ''Song X'', ''2024-06-10'', None, None)] [])
     = Inr ([(''x'', ''Song X'', ''2024-06-10'', None, None)], [])"
  by (auto simp add: update_playlists_unfold new_tracks_def track_id_def page_limit_def)




text \<open>
  Claim C8: a second run with the same wanted tracks finds nothing to add and nothing to
  remove. Here the recent releases playlist holds 101 tracks and nothing is wanted. The
  first run removes the 100 ids of the first page; the second run reads the playlist left
  by the first and still finds \<open>x\<close> to remove.
\<close>

theorem second_run_not_empty:
  "old_rr_track_ids (page_items (fst (playlist_tracks
       (snd (update_playlists
          \<lparr>playlists = (\<lambda>p. if p = ''rr''
               then map (\<lambda>k. replicate (Suc k) CHR ''t'') [0..<100] @ [''x''] else []),
           calls = []\<rparr>
          \<lparr>rr_playlist_id = ''rr'', all_playlist_id = ''all'', dry_run = False\<rparr> [] []))
       ''rr''))) []
   = [''x'']"
proof -
  have "filter (\<lambda>i. i \<notin> set (map (\<lambda>k. replicate (Suc k) CHR ''t'') [0..<100]))
          (map (\<lambda>k. replicate (Suc k) CHR ''t'') [0..<100] @ [''x'']) = [''x'']"
    by (auto simp: filter_empty_conv)
  then show ?thesis
    by (simp add: update_playlists_nothing_wanted playlist_tracks_def page_at_def
          page_limit_def old_rr_track_ids_def)
qed

section \<open>Claims on \<open>get_playlist_tracks\<close>\<close>

text \<open>
  Claim C10. With a playlist id that is \<open>None\<close> or the empty string, the fetch raises
  \<open>ValueError\<close> and leaves the client as it was, its call log included: no provider
  call has been issued. With any other playlist id it does not raise \<open>ValueError\<close>.
\<close>

theorem get_playlist_tracks_value_error:
  "(playlist_id = None \<or> playlist_id = Some [] \<longrightarrow>
      get_playlist_tracks sp playlist_id = (Inl ValueError, sp))
   \<and> (\<forall>pid. playlist_id = Some pid \<and> pid \<noteq> [] \<longrightarrow>
        fst (get_playlist_tracks sp playlist_id) \<noteq> Inl ValueError)"
  by (auto simp: get_playlist_tracks_def case_prod_beta)

theorem get_playlist_tracks_value_error_witness:
  "get_playlist_tracks \<lparr>playlists = (\<lambda>p. []), calls = []\<rparr> None
     = (Inl ValueError, \<lparr>playlists = (\<lambda>p. []), calls = []\<rparr>)
   \<and> get_playlist_tracks \<lparr>playlists = (\<lambda>p. []), calls = []\<rparr> (Some [])
     = (Inl ValueError, \<lparr>playlists = (\<lambda>p. []), calls = []\<rparr>)
   \<and> fst (get_playlist_tracks \<lparr>playlists = (\<lambda>p. []), calls = []\<rparr> (Some ''all''))
     \<noteq> Inl ValueError"
  using get_playlist_tracks_value_error [of None "\<lparr>playlists = (\<lambda>p. []), calls = []\<rparr>"]
    get_playlist_tracks_value_error [of "Some []" "\<lparr>playlists = (\<lambda>p. []), calls = []\<rparr>"]
    get_playlist_tracks_value_error [of "Some ''all''" "\<lparr>playlists = (\<lambda>p. []), calls = []\<rparr>"]
  by simp

section \<open>Claims on \<open>get_recent_track\<close>: windows and dates\<close>

text \<open>
  Claim C4, as stated for any lookback: the year-to-date window ends before the start of
  the recent window. With a lookback of -1 day the start of the recent window is
  tomorrow; a release dated tomorrow fails the first test and passes the second, whose
  upper bound is inclusive, so it is classified year-to-date although its date is not
  before the start of the recent window.
\<close>

theorem negative_lookback_boundary:
  "minus_days (Date 2024 6 20) (- 1) = Inr (toordinal (Date 2024 6 21))
   \<and> classify (toordinal (Date 2024 6 21)) (toordinal (Date 2024 1 1))
        (toordinal (Date 2024 6 20)) (toordinal (Date 2024 6 21)) = YearToDate
   \<and> \<not> (toordinal (Date 2024 1 1) \<le> toordinal (Date 2024 6 21)
         \<and> toordinal (Date 2024 6 21) < toordinal (Date 2024 6 21))"
  by (simp add: minus_days_def classify_def toordinal_def days_before_year_def
        days_before_month_def is_leap_def)

text \<open>
  Claim C4, amended to a lookback that is not negative. The start of the recent window
  is today minus the lookback, and a release date \<open>d\<close> (as an ordinal) is recent iff
  it lies between that start and today, both included, year-to-date iff it lies between
  January 1 of today's year and the day before that start, and ignored otherwise. The
  three cases exclude each other, \<open>classify\<close> being a function.
\<close>

theorem window_partition:
  assumes "0 \<le> n" and "minus_days today n = Inr recent_start"
  shows "recent_start = toordinal today - n
   \<and> (classify recent_start (toordinal (Date (year today) 1 1)) (toordinal today) d = Recent
        \<longleftrightarrow> recent_start \<le> d \<and> d \<le> toordinal today)
   \<and> (classify recent_start (toordinal (Date (year today) 1 1)) (toordinal today) d = YearToDate
        \<longleftrightarrow> toordinal (Date (year today) 1 1) \<le> d \<and> d < recent_start)
   \<and> (classify recent_start (toordinal (Date (year today) 1 1)) (toordinal today) d = Ignored
        \<longleftrightarrow> \<not> (recent_start \<le> d \<and> d \<le> toordinal today)
            \<and> \<not> (toordinal (Date (year today) 1 1) \<le> d \<and> d < recent_start))"
proof -
  have rs: "recent_start = toordinal today - n"
    using assms(2) by (auto simp: minus_days_def split: if_splits)
  then have le: "recent_start \<le> toordinal today" using assms(1) by simp
  show ?thesis using rs le by (auto simp: classify_def)
qed

theorem window_partition_witness:
  "(0::int) \<le> 13 \<and> minus_days (Date 2024 6 20) 13 = Inr (toordinal (Date 2024 6 7))
   \<and> classify (toordinal (Date 2024 6 7)) (toordinal (Date 2024 1 1))
        (toordinal (Date 2024 6 20)) (toordinal (Date 2024 6 7)) = Recent
   \<and> classify (toordinal (Date 2024 6 7)) (toordinal (Date 2024 1 1))
        (toordinal (Date 2024 6 20)) (toordinal (Date 2024 6 6)) = YearToDate
   \<and> classify (toordinal (Date 2024 6 7)) (toordinal (Date 2024 1 1))
        (toordinal (Date 2024 6 20)) (toordinal (Date 2023 12 31)) = Ignored"
proof -
  have m: "minus_days (Date 2024 6 20) 13 = Inr (toordinal (Date 2024 6 7))"
    by (simp add: minus_days_def toordinal_def days_before_year_def days_before_month_def
          is_leap_def)
  have o: "toordinal (Date 2024 6 7) = 739044" "toordinal (Date 2024 6 6) = 739043"
    "toordinal (Date 2024 6 20) = 739057" "toordinal (Date 2024 1 1) = 738886"
    "toordinal (Date 2023 12 31) = 738885"
    by (simp_all add: toordinal_def days_before_year_def days_before_month_def is_leap_def)
  show ?thesis
    using window_partition [OF _ m, of "toordinal (Date 2024 6 7)"]
      window_partition [OF _ m, of "toordinal (Date 2024 6 6)"]
      window_partition [OF _ m, of "toordinal (Date 2023 12 31)"]
    by (simp add: m o)
qed

lemma days_in_month_ge: "28 \<le> days_in_month y m"
  by (simp add: days_in_month_def)

text \<open>
  How the parser reads a date of year or year-month precision, the year above 100: the
  missing month and day are those of the day of the run, the day moved to the end of the
  month when the month is shorter.
\<close>

lemma dateutil_parse_reduced_precision:
  assumes "date_fields s = Some (y, mo, None)" and "100 < y" and "y \<le> 9999"
    and "valid_date today"
    and "m = (case mo of None \<Rightarrow> month today | Some m' \<Rightarrow> m')"
    and "1 \<le> m" and "m \<le> 12"
  shows "dateutil_parse today s = Inr (Date y m (min (day today) (days_in_month y m)))"
proof -
  have d: "1 \<le> day today" using assms(4) by (simp add: valid_date_def)
  have v: "valid_date (Date y m (min (day today) (days_in_month y m)))"
    using assms(2,3,6,7) d days_in_month_ge[of y m] by (simp add: valid_date_def)
  have b: "build_naive today (Some y) mo None
             = Inr (Date y m (min (day today) (days_in_month y m)))"
  proof (cases "day today > days_in_month y m")
    case True
    then have "min (day today) (days_in_month y m) = days_in_month y m" by simp
    with v True show ?thesis using assms(5,6,7)
      by (simp add: build_naive_def Let_def)
  next
    case False
    then have "min (day today) (days_in_month y m) = day today" by simp
    with v False show ?thesis using assms(5,6,7)
      by (simp add: build_naive_def Let_def)
  qed
  show ?thesis using assms(1,2) b by (cases mo) (simp_all add: dateutil_parse_def)
qed

text \<open>
  Claim C6: a release date of year or year-month precision is read with the missing month
  and day taken as the 1st, for the classification by window. The docstring and the
  comments of lines 55 and 62 say that releases are classified by their release date.
  Here an artist has one album, dated \<open>2024\<close>, and the lookback is 13 days. Read as
  2024-01-01 the album is a release of the year that is not recent, on 2024-06-20 as on
  2024-09-01. The fetcher reads \<open>2024\<close> as the day of the run, and on both days
  returns the album's track as the latest track of the recent window.
\<close>

theorem year_only_release_recent_on_every_run:
  "get_recent_track dateutil_parse
      \<lparr>artist_albums = (\<lambda>aid. Inr [\<lparr>album_id = ''a1'', release_date = Some ''2024''\<rparr>]),
       album_tracks = (\<lambda>i. Inr [(''t1'', ''Song'')])\<rparr>
      (Date 2024 6 20)
      \<lparr>spotify_id = Some ''artist'', threads = None, artist_name = Some ''A''\<rparr> 13
     = Inr ([(''t1'', ''Song'', ''2024'', None, Some ''A'')],
            Some (''t1'', ''Song'', ''2024'', None, Some ''A''))
   \<and> get_recent_track dateutil_parse
      \<lparr>artist_albums = (\<lambda>aid. Inr [\<lparr>album_id = ''a1'', release_date = Some ''2024''\<rparr>]),
       album_tracks = (\<lambda>i. Inr [(''t1'', ''Song'')])\<rparr>
      (Date 2024 9 1)
      \<lparr>spotify_id = Some ''artist'', threads = None, artist_name = Some ''A''\<rparr> 13
     = Inr ([(''t1'', ''Song'', ''2024'', None, Some ''A'')],
            Some (''t1'', ''Song'', ''2024'', None, Some ''A''))
   \<and> minus_days (Date 2024 6 20) 13 = Inr (toordinal (Date 2024 6 7))
   \<and> classify (toordinal (Date 2024 6 7)) (toordinal (Date 2024 1 1))
        (toordinal (Date 2024 6 20)) (toordinal (Date 2024 1 1)) = YearToDate
   \<and> minus_days (Date 2024 9 1) 13 = Inr (toordinal (Date 2024 8 19))
   \<and> classify (toordinal (Date 2024 8 19)) (toordinal (Date 2024 1 1))
        (toordinal (Date 2024 9 1)) (toordinal (Date 2024 1 1)) = YearToDate"
  by (simp add: get_recent_track_def minus_days_def dateutil_parse_def build_naive_def
        date_fields_def is_digit_def int_of_digits_def less_eq_char_def valid_date_def
        days_in_month_def is_leap_def classify_def toordinal_def days_before_year_def
        days_before_month_def track_info_def sort_newest_first_def)

text \<open>
  Whatever the parser, an album whose date string makes it raise anything but
  \<open>TypeError\<close> makes the whole loop raise.
\<close>

lemma album_loop_raises:
  assumes "al \<in> set albums" and "release_date al = Some ds" and "parse today ds = Inl e"
    and "e \<noteq> TypeError"
  shows "\<exists>e'. album_loop parse sp today a rs ys albums st = Inl e'"
  using assms(1)
proof (induction albums arbitrary: st)
  case Nil
  then show ?case by simp
next
  case (Cons x xs)
  show ?case
  proof (cases "x = al")
    case True
    then show ?thesis using assms(2,3,4) by simp
  next
    case False
    then have "al \<in> set xs" using Cons.prems by simp
    then have ih: "\<And>st. \<exists>e'. album_loop parse sp today a rs ys xs st = Inl e'"
      using Cons.IH by blast
    show ?thesis
      using ih by (auto split: option.splits sum.splits window.splits)
  qed
qed

text \<open>
  Claim C5: a release whose date cannot be parsed is skipped and the artist's other
  releases are processed. Here the first album's date is the empty string and the second
  album is a recent release: the fetch raises \<open>ParserError\<close> and the second album is
  lost. With \<open>null\<close> for the first album's date, which raises the \<open>TypeError\<close>
  that line 58 catches, the same fetch returns the second album's track.
\<close>

theorem unparsable_date_aborts_fetch:
  "get_recent_track dateutil_parse
      \<lparr>artist_albums = (\<lambda>aid. Inr [\<lparr>album_id = ''a1'', release_date = Some []\<rparr>,
                                    \<lparr>album_id = ''a2'', release_date = Some ''2024-06-10''\<rparr>]),
       album_tracks = (\<lambda>i. Inr [(''t1'', ''Song'')])\<rparr>
      (Date 2024 6 20)
      \<lparr>spotify_id = Some ''artist'', threads = None, artist_name = Some ''A''\<rparr> 13
     = Inl ParserError
   \<and> get_recent_track dateutil_parse
      \<lparr>artist_albums = (\<lambda>aid. Inr [\<lparr>album_id = ''a1'', release_date = None\<rparr>,
                                    \<lparr>album_id = ''a2'', release_date = Some ''2024-06-10''\<rparr>]),
       album_tracks = (\<lambda>i. Inr [(''t1'', ''Song'')])\<rparr>
      (Date 2024 6 20)
      \<lparr>spotify_id = Some ''artist'', threads = None, artist_name = Some ''A''\<rparr> 13
     = Inr ([(''t1'', ''Song'', ''2024-06-10'', None, Some ''A'')],
            Some (''t1'', ''Song'', ''2024-06-10'', None, Some ''A''))"
  by (simp add: get_recent_track_def minus_days_def dateutil_parse_def build_naive_def
        date_fields_def is_digit_def int_of_digits_def less_eq_char_def valid_date_def
        days_in_month_def is_leap_def classify_def toordinal_def days_before_year_def
        days_before_month_def track_info_def sort_newest_first_def)

section \<open>Claims on \<open>get_recent_track\<close>: the latest track\<close>













section \<open>Claims on \<open>deduplicate_track_list\<close>\<close>

lemma first_greatest_snoc:
  assumes "first_greatest_in seen v"
    and "length t = 5 \<and> track_name t = track_name v \<longrightarrow> track_date t \<le> track_date v"
  shows "first_greatest_in (seen @ [t]) v"
proof -
  from assms(1) obtain before after where s: "seen = before @ v # after"
    and b: "\<forall>u \<in> set before. length u = 5 \<and> track_name u = track_name v
              \<longrightarrow> track_date u < track_date v"
    and a: "\<forall>u \<in> set after. length u = 5 \<and> track_name u = track_name v
              \<longrightarrow> track_date u \<le> track_date v"
    unfolding first_greatest_in_def by blast
  have "seen @ [t] = before @ v # (after @ [t])" using s by simp
  moreover have "\<forall>u \<in> set (after @ [t]). length u = 5 \<and> track_name u = track_name v
              \<longrightarrow> track_date u \<le> track_date v"
    using a assms(2) by auto
  ultimately show ?thesis unfolding first_greatest_in_def using b by blast
qed

lemma first_greatest_new:
  assumes "\<forall>u \<in> set seen. length u = 5 \<and> track_name u = track_name t
             \<longrightarrow> track_date u < track_date t"
  shows "first_greatest_in (seen @ [t]) t"
proof -
  have "seen @ [t] = seen @ t # []" by simp
  moreover have "\<forall>u \<in> set []. length u = 5 \<and> track_name u = track_name t
              \<longrightarrow> track_date u \<le> track_date t" by simp
  ultimately show ?thesis unfolding first_greatest_in_def using assms by blast
qed

lemma first_greatest_greatest:
  assumes "first_greatest_in seen v" and "u \<in> set seen" and "length u = 5"
    and "track_name u = track_name v"
  shows "track_date u \<le> track_date v"
proof -
  from assms(1) obtain before after where s: "seen = before @ v # after"
    and b: "\<forall>u \<in> set before. length u = 5 \<and> track_name u = track_name v
              \<longrightarrow> track_date u < track_date v"
    and a: "\<forall>u \<in> set after. length u = 5 \<and> track_name u = track_name v
              \<longrightarrow> track_date u \<le> track_date v"
    unfolding first_greatest_in_def by blast
  from assms(2) s have "u \<in> set before \<or> u = v \<or> u \<in> set after" by auto
  then show ?thesis using a b assms(3,4) by (auto simp: less_imp_le)
qed

lemma first_greatest_mem: "first_greatest_in seen v \<Longrightarrow> v \<in> set seen"
  unfolding first_greatest_in_def by auto

lemma dict_inv_skip:
  assumes "dict_inv seen d" and "length t \<noteq> 5"
  shows "dict_inv (seen @ [t]) d"
  using assms unfolding dict_inv_def
  by (auto intro!: first_greatest_snoc)

lemma dict_inv_keep:
  assumes "dict_inv seen d" and "length t = 5" and "map_of d (track_name t) = Some kept"
    and "track_date t \<le> track_date kept"
  shows "dict_inv (seen @ [t]) d"
proof -
  have "first_greatest_in (seen @ [t]) v" if "map_of d k = Some v" for k v
  proof -
    from that assms(1) have v: "track_name v = k" "first_greatest_in seen v"
      unfolding dict_inv_def by auto
    show ?thesis
    proof (rule first_greatest_snoc[OF v(2)], intro impI)
      assume "length t = 5 \<and> track_name t = track_name v"
      then have "k = track_name t" using v(1) by simp
      then have "v = kept" using that assms(3) by simp
      then show "track_date t \<le> track_date v" using assms(4) by simp
    qed
  qed
  then show ?thesis using assms(1,2,3) unfolding dict_inv_def by auto
qed

lemma dict_inv_store:
  assumes "dict_inv seen d" and "length t = 5" and "track_date t \<noteq> None"
    and "\<forall>kept. map_of d (track_name t) = Some kept \<longrightarrow> track_date kept < track_date t"
  shows "dict_inv (seen @ [t]) (AList.update (track_name t) t d)"
proof -
  let ?d = "AList.update (track_name t) t d"
  have m: "map_of ?d = (map_of d)(track_name t \<mapsto> t)" by (rule update_conv')
  have dist: "distinct (map fst ?d)"
    using assms(1) unfolding dict_inv_def by (simp add: distinct_update)
  have new: "first_greatest_in (seen @ [t]) t"
  proof (rule first_greatest_new, intro ballI impI)
    fix u assume u: "u \<in> set seen" and h: "length u = 5 \<and> track_name u = track_name t"
    with assms(1) obtain kept where k: "map_of d (track_name t) = Some kept"
      unfolding dict_inv_def by force
    with assms(1) have "track_name kept = track_name t" and "first_greatest_in seen kept"
      unfolding dict_inv_def by auto
    with first_greatest_greatest[of seen kept u] u h
    have "track_date u \<le> track_date kept" by simp
    moreover have "track_date kept < track_date t" using assms(4) k by simp
    ultimately show "track_date u < track_date t" by simp
  qed
  have vals: "track_name v = k \<and> length v = 5 \<and> track_date v \<noteq> None
              \<and> first_greatest_in (seen @ [t]) v" if "map_of ?d k = Some v" for k v
  proof (cases "k = track_name t")
    case True
    then have "v = t" using that m by simp
    then show ?thesis using True assms(2,3) new by simp
  next
    case False
    then have old: "map_of d k = Some v" using that m by simp
    with assms(1) have v: "track_name v = k" "length v = 5" "track_date v \<noteq> None"
      "first_greatest_in seen v" unfolding dict_inv_def by auto
    have "first_greatest_in (seen @ [t]) v"
      using first_greatest_snoc[OF v(4), of t] False v(1) by simp
    with v show ?thesis by simp
  qed
  have cov: "map_of ?d (track_name u) \<noteq> None" if "u \<in> set (seen @ [t])" "length u = 5" for u
    using that assms(1) m unfolding dict_inv_def by auto
  show ?thesis unfolding dict_inv_def using dist vals cov by blast
qed

lemma dedup_loop_inv:
  assumes "\<forall>t \<in> set rest. length t \<le> 5 \<and> (length t = 5 \<longrightarrow> track_date t \<noteq> None)"
    and "dict_inv seen d"
  shows "\<exists>d'. dedup_loop rest d = Inr d' \<and> dict_inv (seen @ rest) d'"
  using assms
proof (induction rest arbitrary: seen d)
  case Nil
  then show ?case by simp
next
  case (Cons t ts)
  have wf: "\<forall>t \<in> set ts. length t \<le> 5 \<and> (length t = 5 \<longrightarrow> track_date t \<noteq> None)"
    using Cons.prems(1) by simp
  have step: "\<exists>d'. dedup_loop ts d1 = Inr d' \<and> dict_inv (seen @ t # ts) d'"
    if "dict_inv (seen @ [t]) d1" for d1
    using Cons.IH[OF wf that] by simp
  show ?case
  proof (cases "length t < 5")
    case True
    then have "dict_inv (seen @ [t]) d" using dict_inv_skip[OF Cons.prems(2)] by simp
    from step[OF this] True show ?thesis by simp
  next
    case False
    then have len: "length t = 5" using Cons.prems(1) by force
    then obtain a where a: "track_date t = Some a" using Cons.prems(1) by auto
    show ?thesis
    proof (cases "map_of d (track_name t)")
      case None
      then have "dict_inv (seen @ [t]) (AList.update (track_name t) t d)"
        using dict_inv_store[OF Cons.prems(2) len] a by simp
      from step[OF this] len None show ?thesis by simp
    next
      case (Some kept)
      then obtain b where b: "track_date kept = Some b"
        using Cons.prems(2) unfolding dict_inv_def by blast
      show ?thesis
      proof (cases "a > b")
        case True
        then have "dict_inv (seen @ [t]) (AList.update (track_name t) t d)"
          using dict_inv_store[OF Cons.prems(2) len] a b Some by simp
        from step[OF this] len Some a b True show ?thesis by simp
      next
        case False
        then have "dict_inv (seen @ [t]) d"
          using dict_inv_keep[OF Cons.prems(2) len Some] a b by simp
        from step[OF this] len Some a b False show ?thesis by simp
      qed
    qed
  qed
qed

lemma distinct_map_sort_key:
  "distinct (map f xs) \<Longrightarrow> distinct (map f (sort_key g xs))"
  by (simp add: distinct_map)

text \<open>
  On a list of records of at most five fields, those of five fields carrying a release
  date, \<open>deduplicate_track_list\<close> returns; its output holds at most one record per
  title, and exactly the titles of the input records of five fields (the shorter ones are
  skipped); the record retained for a title is the first one, in input order, among those
  of that title with the greatest date string.
\<close>

lemma dedup_keeps_first_greatest:
  assumes "\<forall>t \<in> set tracks. length t \<le> 5 \<and> (length t = 5 \<longrightarrow> track_date t \<noteq> None)"
  shows "\<exists>out. deduplicate_track_list tracks = Inr out
     \<and> distinct (map track_name out)
     \<and> track_name ` set out = track_name ` {t \<in> set tracks. length t = 5}
     \<and> (\<forall>r \<in> set out. length r = 5 \<and> first_greatest_in tracks r)"
proof -
  have "dict_inv [] []" by (simp add: dict_inv_def)
  from dedup_loop_inv[OF assms this] obtain d where
    loop: "dedup_loop tracks [] = Inr d" and inv: "dict_inv tracks d" by auto
  let ?u = "map snd d"
  have dist: "distinct (map fst d)" using inv by (simp add: dict_inv_def)
  have entry: "track_name v = k \<and> length v = 5 \<and> track_date v \<noteq> None
               \<and> first_greatest_in tracks v" if "(k, v) \<in> set d" for k v
  proof -
    from that dist have "map_of d k = Some v" by simp
    with inv show ?thesis unfolding dict_inv_def by blast
  qed
  have dates: "\<forall>t \<in> set ?u. track_date t \<noteq> None" using entry by auto
  have out: "deduplicate_track_list tracks = Inr (sort_key track_date ?u)"
    using loop dates by (simp add: deduplicate_track_list_def Let_def)
  have names: "map track_name ?u = map fst d" using entry by auto
  have "distinct (map track_name ?u)" by (subst names) (rule dist)
  then have d1: "distinct (map track_name (sort_key track_date ?u))"
    by (rule distinct_map_sort_key)
  have keys: "track_name ` set ?u = fst ` set d"
    using names by (metis list.set_map)
  have "fst ` set d = track_name ` {t \<in> set tracks. length t = 5}"
  proof (intro equalityI subsetI)
    fix k assume "k \<in> fst ` set d"
    then obtain v where v: "(k, v) \<in> set d" by auto
    from entry[OF v] first_greatest_mem[of tracks v]
    show "k \<in> track_name ` {t \<in> set tracks. length t = 5}" by auto
  next
    fix k assume "k \<in> track_name ` {t \<in> set tracks. length t = 5}"
    then obtain t where t: "t \<in> set tracks" "length t = 5" "k = track_name t" by auto
    with inv have "map_of d k \<noteq> None" unfolding dict_inv_def by blast
    then show "k \<in> fst ` set d" by (simp add: map_of_eq_None_iff)
  qed
  with keys have d2: "track_name ` set (sort_key track_date ?u)
                        = track_name ` {t \<in> set tracks. length t = 5}" by simp
  have d3: "\<forall>r \<in> set (sort_key track_date ?u). length r = 5 \<and> first_greatest_in tracks r"
    using entry by auto
  show ?thesis using out d1 d2 d3 by blast
qed

lemma dedup_keeps_first_greatest_example:
  "deduplicate_track_list
     [[Some ''id1'', Some ''Song A'', Some ''2024-05-01'', None, None],
      [Some ''id3''],
      [Some ''id2'', Some ''Song A'', Some ''2024-06-01'', None, None],
      [Some ''id4'', Some ''Song A'', Some ''2024-06-01'', None, None]]
     = Inr [[Some ''id2'', Some ''Song A'', Some ''2024-06-01'', None, None]]
   \<and> first_greatest_in
     [[Some ''id1'', Some ''Song A'', Some ''2024-05-01'', None, None],
      [Some ''id3''],
      [Some ''id2'', Some ''Song A'', Some ''2024-06-01'', None, None],
      [Some ''id4'', Some ''Song A'', Some ''2024-06-01'', None, None]]
     [Some ''id2'', Some ''Song A'', Some ''2024-06-01'', None, None]"
proof -
  let ?ts = "[[Some ''id1'', Some ''Song A'', Some ''2024-05-01'', None, None],
      [Some ''id3''],
      [Some ''id2'', Some ''Song A'', Some ''2024-06-01'', None, None],
      [Some ''id4'', Some ''Song A'', Some ''2024-06-01'', None, None]]"
  have wf: "\<forall>t \<in> set ?ts. length t \<le> 5 \<and> (length t = 5 \<longrightarrow> track_date t \<noteq> None)"
    by (simp add: track_date_def)
  have ev: "deduplicate_track_list ?ts
     = Inr [[Some ''id2'', Some ''Song A'', Some ''2024-06-01'', None, None]]"
    by code_simp
  from dedup_keeps_first_greatest [OF wf] ev show ?thesis by simp
qed

text \<open>
  Claim C3: the record retained for a title has the greatest release date, and of two
  records of the same date the first seen stays, a record being replaced only by one
  of a strictly later date; the comment of line 150 says the same (``the new date is more
  recent''). Line 151 compares the provider's date strings. Here two records bear the
  same title, the first dated \<open>2024-03\<close> and the second \<open>2024-03-01\<close>: the second
  replaces the first, although its date is not later. Read with the missing day as the
  1st the two are the same day, which is also how the fetcher reads them on the first of
  a month; on any other day it reads the first record's date as the later one.
\<close>

theorem mixed_precision_replaces_first_seen:
  "deduplicate_track_list
     [[Some ''id1'', Some ''Song A'', Some ''2024-03'', None, None],
      [Some ''id2'', Some ''Song A'', Some ''2024-03-01'', None, None]]
     = Inr [[Some ''id2'', Some ''Song A'', Some ''2024-03-01'', None, None]]
   \<and> dateutil_parse (Date 2024 6 1) ''2024-03'' = Inr (Date 2024 3 1)
   \<and> dateutil_parse (Date 2024 6 1) ''2024-03-01'' = Inr (Date 2024 3 1)
   \<and> dateutil_parse (Date 2024 6 20) ''2024-03'' = Inr (Date 2024 3 20)
   \<and> dateutil_parse (Date 2024 6 20) ''2024-03-01'' = Inr (Date 2024 3 1)"
proof -
  have "deduplicate_track_list
     [[Some ''id1'', Some ''Song A'', Some ''2024-03'', None, None],
      [Some ''id2'', Some ''Song A'', Some ''2024-03-01'', None, None]]
     = Inr [[Some ''id2'', Some ''Song A'', Some ''2024-03-01'', None, None]]"
    by code_simp
  moreover have "dateutil_parse (Date 2024 6 1) ''2024-03'' = Inr (Date 2024 3 1)
   \<and> dateutil_parse (Date 2024 6 1) ''2024-03-01'' = Inr (Date 2024 3 1)
   \<and> dateutil_parse (Date 2024 6 20) ''2024-03'' = Inr (Date 2024 3 20)
   \<and> dateutil_parse (Date 2024 6 20) ''2024-03-01'' = Inr (Date 2024 3 1)"
    by (simp add: dateutil_parse_def build_naive_def date_fields_def is_digit_def
          int_of_digits_def less_eq_char_def valid_date_def days_in_month_def is_leap_def)
  ultimately show ?thesis by simp
qed

end
